theory Spec2Isabelle
  imports Complex_Main "HOL-Library.Sublist"
begin

section \<open>Python text\<close>

text \<open>
  A Python \<open>str\<close> is a sequence of code points. The model uses \<open>string\<close> and reads each
  \<open>char\<close> as the code point of the same number (0 to 255, the Latin-1 range), so
  \<open>length\<close> counts what \<open>len\<close> counts. The character classes below are those of
  \<open>str.isspace\<close>, \<open>str.lower\<close> and the \<open>\w\<close> of \<open>re\<close> on that range.
\<close>

definition is_space :: "char \<Rightarrow> bool" where
  "is_space c = (let n = (of_char c :: nat) in
     (9 \<le> n \<and> n \<le> 13) \<or> (28 \<le> n \<and> n \<le> 32) \<or> n = 133 \<or> n = 160)"

definition is_upper :: "char \<Rightarrow> bool" where
  "is_upper c = (let n = (of_char c :: nat) in
     (65 \<le> n \<and> n \<le> 90) \<or> (192 \<le> n \<and> n \<le> 222 \<and> n \<noteq> 215))"

definition is_lower :: "char \<Rightarrow> bool" where
  "is_lower c = (let n = (of_char c :: nat) in
     (97 \<le> n \<and> n \<le> 122) \<or> (224 \<le> n \<and> n \<le> 254 \<and> n \<noteq> 247))"

text \<open>Upper and lower case of one letter differ by 32, which is bit 5 of the code point.\<close>

fun set_bit5 :: "bool \<Rightarrow> char \<Rightarrow> char" where
  "set_bit5 b (Char b0 b1 b2 b3 b4 b5 b6 b7) = Char b0 b1 b2 b3 b4 b b6 b7"

definition lower_char :: "char \<Rightarrow> char" where
  "lower_char c = (if is_upper c then set_bit5 True c else c)"

definition upper_char :: "char \<Rightarrow> char" where
  "upper_char c = (if is_lower c then set_bit5 False c else c)"

definition lower :: "string \<Rightarrow> string" where
  "lower s = map lower_char s"

definition strip :: "string \<Rightarrow> string" where
  "strip s = rev (dropWhile is_space (rev (dropWhile is_space s)))"

text \<open>\<open>sub in s\<close> on strings: \<open>sub\<close> occurs in \<open>s\<close> as a contiguous run.\<close>

fun contains :: "string \<Rightarrow> string \<Rightarrow> bool" where
  "contains sub [] = (sub = [])"
| "contains sub (c # cs) = (prefix sub (c # cs) \<or> contains sub cs)"

text \<open>\<open>sep.join(xs)\<close>.\<close>

fun join :: "string \<Rightarrow> string list \<Rightarrow> string" where
  "join sep [] = []"
| "join sep [x] = x"
| "join sep (x # y # ys) = x @ sep @ join sep (y # ys)"

text \<open>\<open>a or b\<close> on strings: the empty string is false.\<close>

definition str_or :: "string \<Rightarrow> string \<Rightarrow> string" where
  "str_or a b = (if a \<noteq> [] then a else b)"

text \<open>\<open>xs[k:]\<close>: a negative start counts from the end, and the start is clamped to the list.\<close>

definition slice_from :: "int \<Rightarrow> 'a list \<Rightarrow> 'a list" where
  "slice_from k xs =
     (let n = int (length xs);
          s = (if k < 0 then max (n + k) 0 else min k n)
      in drop (nat s) xs)"

section \<open>memory.py\<close>

record 'c entry =
  e_time :: string
  e_query :: string
  e_subtasks :: "string list"
  e_chunks_used :: "'c list"
  e_first_answer :: string
  e_critic_score :: int
  e_feedback :: string
  e_final_answer :: string
  e_revisions :: int

text \<open>
  A \<open>Memory\<close> object is its list \<open>self.log\<close>, written \<open>lg\<close> here. \<open>save\<close> takes the clock
  reading as an argument.
\<close>

type_synonym 'c memory = "'c entry list"

definition list_or_empty :: "'a list option \<Rightarrow> 'a list" where
  "list_or_empty v = (case v of None \<Rightarrow> [] | Some xs \<Rightarrow> xs)"

definition save ::
  "string \<Rightarrow> string \<Rightarrow> string list option \<Rightarrow> 'c list option \<Rightarrow> string \<Rightarrow> int \<Rightarrow> string \<Rightarrow>
   string \<Rightarrow> int \<Rightarrow> 'c memory \<Rightarrow> 'c memory" where
  "save now query subtasks chunks_used answer critic_score feedback final_answer revisions lg =
     lg @ [\<lparr>e_time = now, e_query = query, e_subtasks = list_or_empty subtasks,
             e_chunks_used = list_or_empty chunks_used, e_first_answer = answer,
             e_critic_score = critic_score, e_feedback = feedback,
             e_final_answer = final_answer, e_revisions = revisions\<rparr>]"

definition qa_lines :: "'c entry \<Rightarrow> string" where
  "qa_lines e =
     ''Q: '' @ e_query e @ ''\<newline>A: '' @ str_or (e_final_answer e) (e_first_answer e)"

definition get_recent :: "int \<Rightarrow> 'c memory \<Rightarrow> string" where
  "get_recent n lg =
     (let recent = (if int (length lg) \<ge> n then slice_from (- n) lg else lg)
      in if recent = [] then ''No previous queries.''
         else join ''\<newline>\<newline>'' (map qa_lines recent))"

definition count :: "'c memory \<Rightarrow> nat" where
  "count lg = length lg"

definition clear :: "'c memory \<Rightarrow> 'c memory" where
  "clear lg = []"

text \<open>
  The window the specification describes: the last \<open>min n (count lg)\<close> entries, oldest
  first, each as its question and answer text.
\<close>

definition last_entries :: "nat \<Rightarrow> 'a list \<Rightarrow> 'a list" where
  "last_entries k xs = drop (length xs - k) xs"

definition recent_spec :: "int \<Rightarrow> 'c memory \<Rightarrow> string" where
  "recent_spec n lg =
     join ''\<newline>\<newline>'' (map qa_lines (last_entries (min (nat n) (count lg)) lg))"

section \<open>answer_agent.py\<close>

text \<open>
  The generation service is a collaborator: \<open>llm(prompt)\<close> is a function from the prompt
  and the state of the world to the generated text and the next state, so that two calls
  with one prompt may answer differently. \<open>get_llm\<close> hands out the one cached handle; the
  model passes that handle as the argument \<open>llm\<close>.
\<close>

type_synonym 'w llm = "string \<Rightarrow> 'w \<Rightarrow> string \<times> 'w"

definition LLM_NAME :: string where
  "LLM_NAME = ''google/flan-t5-base''"

definition make_prompt :: "string \<Rightarrow> string \<Rightarrow> string" where
  "make_prompt question context =
     ''Answer the following question based only on the provided context. '' @
     ''If the answer is not in the context, say 'The context does not '' @
     ''contain enough information to answer this.' Be specific.\<newline>\<newline>'' @
     ''Context:\<newline>'' @ context @ ''\<newline>\<newline>'' @
     ''Question: '' @ question @ ''\<newline>\<newline>'' @
     ''Answer:''"

record answer_result =
  a_answer :: string
  a_prompt_used :: string
  a_model :: string

definition build_answer ::
  "'w llm \<Rightarrow> string \<Rightarrow> string \<Rightarrow> string \<Rightarrow> 'w \<Rightarrow> answer_result \<times> 'w" where
  "build_answer llm question context model_name w =
     (let prompt = make_prompt question context;
          prompt = (if length prompt > 2000
                    then (let short_ctx = take 1800 context in make_prompt question short_ctx)
                    else prompt);
          (out, w') = llm prompt w;
          answer_text = strip out
      in (\<lparr>a_answer = answer_text, a_prompt_used = prompt, a_model = model_name\<rparr>, w'))"

section \<open>critic_agent.py\<close>

datatype py_error = ZeroDivisionError | IndexError

text \<open>\<open>a / b\<close> on two lengths: the exact quotient, or the exception at \<open>b = 0\<close>.\<close>

definition truediv :: "nat \<Rightarrow> nat \<Rightarrow> py_error + rat" where
  "truediv a b = (if b = 0 then Inl ZeroDivisionError else Inr (of_nat a / of_nat b))"

text \<open>\<open>s.split()\<close>: the maximal runs of characters that are not white space.\<close>

fun split_acc :: "string \<Rightarrow> string \<Rightarrow> string list" where
  "split_acc cur [] = (if cur = [] then [] else [cur])"
| "split_acc cur (c # cs) =
     (if is_space c then (if cur = [] then split_acc [] cs else cur # split_acc [] cs)
      else split_acc (cur @ [c]) cs)"

definition split_ws :: "string \<Rightarrow> string list" where
  "split_ws s = split_acc [] s"

record heuristics =
  h_notes :: "(string \<times> string) list"
  h_score :: int

definition no_info :: "string list" where
  "no_info = [''does not contain'', ''not found'', ''no information'',
              ''cannot answer'', ''not mentioned'', ''not available'']"

definition stop :: "string set" where
  "stop = set [''the'', ''a'', ''an'', ''is'', ''are'', ''was'', ''were'', ''in'', ''on'', ''at'',
               ''to'', ''for'', ''of'', ''and'', ''or'', ''it'', ''this'', ''that'', ''with'', ''by'']"

text \<open>
  Each check of \<open>heuristic_checks\<close> is one definition: the note it stores and the amount it
  takes from the score. The text of a ratio as a percentage (\<open>{:.0%}\<close>) is floating-point
  formatting, which the model leaves to the parameter \<open>pct\<close>. A ratio is the exact
  quotient; the double that Python compares with \<open>0.3\<close> and \<open>0.5\<close> is on the same side
  of them for every set of fewer than \<open>10^15\<close> words.
\<close>

definition length_check :: "string \<Rightarrow> string \<times> int" where
  "length_check answer =
     (if length answer < 20
        then (''Very short answer (< 20 chars), probably incomplete'', 3)
      else if length answer < 50
        then (''Kinda short, might be missing detail'', 1)
      else (''Length seems fine'', 0))"

definition no_info_check :: "string \<Rightarrow> string \<times> int" where
  "no_info_check answer =
     (if list_ex (\<lambda>p. contains p (lower answer)) no_info
        then (''Answer says info is missing - might need different retrieval'', 2)
      else (''Doesn't flag missing info'', 0))"

definition grounding_overlap :: "string \<Rightarrow> string \<Rightarrow> py_error + rat" where
  "grounding_overlap answer context =
     (let ans_words = set (split_ws (lower answer)) - stop;
          ctx_words = set (split_ws (lower context)) - stop
      in if card ans_words > 0
         then truediv (card (ans_words \<inter> ctx_words)) (card ans_words)
         else Inr 0)"

definition grounding_check :: "(rat \<Rightarrow> string) \<Rightarrow> rat \<Rightarrow> string \<times> int" where
  "grounding_check pct overlap =
     (if overlap < 3 / 10
        then (''Low grounding ('' @ pct overlap @ '') - possible hallucination'', 3)
      else if overlap < 5 / 10
        then (''Moderate grounding ('' @ pct overlap @ '')'', 1)
      else (''Good grounding ('' @ pct overlap @ '')'', 0))"

definition relevance_overlap :: "string \<Rightarrow> string \<Rightarrow> py_error + rat" where
  "relevance_overlap answer question =
     (let q_words = set (split_ws (lower question)) - stop
      in truediv (card (q_words \<inter> set (split_ws (lower answer)))) (max (card q_words) 1))"

definition relevance_check :: "(rat \<Rightarrow> string) \<Rightarrow> rat \<Rightarrow> string \<times> int" where
  "relevance_check pct q_overlap =
     (if q_overlap < 3 / 10
        then (''Low relevance ('' @ pct q_overlap @
              '') - might not be answering the right question'', 2)
      else (''Relevance okay ('' @ pct q_overlap @ '')'', 0))"

definition heuristic_checks ::
  "(rat \<Rightarrow> string) \<Rightarrow> string \<Rightarrow> string \<Rightarrow> string \<Rightarrow> py_error + heuristics" where
  "heuristic_checks pct answer context question =
     (let score = 10;
          (n_length, d) = length_check answer;
          score = score - d;
          (n_no_info, d) = no_info_check answer;
          score = score - d
      in case grounding_overlap answer context of
           Inl e \<Rightarrow> Inl e
         | Inr overlap \<Rightarrow>
             (let (n_grounding, d) = grounding_check pct overlap;
                  score = score - d
              in case relevance_overlap answer question of
                   Inl e \<Rightarrow> Inl e
                 | Inr q_overlap \<Rightarrow>
                     (let (n_relevance, d) = relevance_check pct q_overlap;
                          score = score - d;
                          score = max 1 (min 10 score)
                      in Inr \<lparr>h_notes = [(''length'', n_length), (''no_info'', n_no_info),
                                         (''grounding'', n_grounding),
                                         (''relevance'', n_relevance)],
                              h_score = score\<rparr>)))"

definition llm_eval :: "'w llm \<Rightarrow> string \<Rightarrow> string \<Rightarrow> string \<Rightarrow> 'w \<Rightarrow> string \<times> 'w" where
  "llm_eval llm answer context question w =
     (let prompt =
            ''Evaluate this answer for completeness and accuracy. '' @
            ''Point out anything missing or wrong.\<newline>\<newline>'' @
            ''Question: '' @ question @ ''\<newline>\<newline>'' @
            ''Context: '' @ take 500 context @ ''\<newline>\<newline>'' @
            ''Answer: '' @ answer @ ''\<newline>\<newline>'' @
            ''Evaluation:'';
          (out, w') = llm prompt w
      in (strip out, w'))"

record evaluation =
  ev_score :: int
  ev_feedback :: string
  ev_notes :: "(string \<times> string) list"
  ev_llm_feedback :: string
  ev_needs_revision :: bool

definition evaluate ::
  "'w llm \<Rightarrow> (rat \<Rightarrow> string) \<Rightarrow> string \<Rightarrow> string \<Rightarrow> string \<Rightarrow> 'w \<Rightarrow>
   (py_error + evaluation) \<times> 'w" where
  "evaluate llm pct answer context question w =
     (case heuristic_checks pct answer context question of
        Inl e \<Rightarrow> (Inl e, w)
      | Inr h \<Rightarrow>
          (let (l, w') = llm_eval llm answer context question w;
               feedback_lines =
                 map (\<lambda>(name, note). ''  - '' @ name @ '': '' @ note) (h_notes h) @
                 [''  - llm says: '' @ l];
               summary = join ''\<newline>'' feedback_lines
           in (Inr \<lparr>ev_score = h_score h, ev_feedback = summary, ev_notes = h_notes h,
                     ev_llm_feedback = l, ev_needs_revision = (h_score h < 7)\<rparr>, w')))"

section \<open>revision_agent.py\<close>

definition MAX_ROUNDS :: int where
  "MAX_ROUNDS = 2"

record revision =
  rv_revised :: string
  rv_original :: string
  rv_feedback_used :: string

definition revise ::
  "'w llm \<Rightarrow> string \<Rightarrow> string \<Rightarrow> string \<Rightarrow> string \<Rightarrow> 'w \<Rightarrow> revision \<times> 'w" where
  "revise llm original_ans feedback context question w =
     (let prompt =
            ''Improve this answer based on the feedback below. '' @
            ''Stay grounded in the context, don't make stuff up.\<newline>\<newline>'' @
            ''Question: '' @ question @ ''\<newline>\<newline>'' @
            ''Context: '' @ take 500 context @ ''\<newline>\<newline>'' @
            ''Original answer: '' @ original_ans @ ''\<newline>\<newline>'' @
            ''Feedback: '' @ feedback @ ''\<newline>\<newline>'' @
            ''Improved answer:'';
          (out, w') = llm prompt w;
          new_ans = strip out
      in (\<lparr>rv_revised = new_ans, rv_original = original_ans, rv_feedback_used = feedback\<rparr>,
          w'))"

text \<open>
  \<open>eval_fn\<close> is any function of the answer, the context, the question, the model name and
  the world that returns an evaluation. To count calls, the model keeps a list of the
  calls made, in order: \<open>run_revision_loop\<close> appends to it at each place where the source
  calls \<open>eval_fn\<close> or \<open>revise\<close>. The \<open>print\<close> of the loop body is not modelled.
\<close>

type_synonym 'w eval_fn = "string \<Rightarrow> string \<Rightarrow> string \<Rightarrow> string \<Rightarrow> 'w \<Rightarrow> evaluation \<times> 'w"

datatype call = EvalCall string | ReviseCall string string

fun is_eval :: "call \<Rightarrow> bool" where
  "is_eval (EvalCall a) = True"
| "is_eval (ReviseCall a f) = False"

fun is_revise :: "call \<Rightarrow> bool" where
  "is_revise (EvalCall a) = False"
| "is_revise (ReviseCall a f) = True"

record history_entry =
  r_round :: int
  r_answer :: string
  r_score :: int
  r_feedback :: string

record 'w loop_state =
  ls_current :: string
  ls_ev :: evaluation
  ls_history :: "history_entry list"
  ls_rounds_done :: int
  ls_calls :: "call list"
  ls_world :: 'w

text \<open>One pass through the body of the \<open>while\<close> loop.\<close>

definition revision_step ::
  "'w eval_fn \<Rightarrow> 'w llm \<Rightarrow> string \<Rightarrow> string \<Rightarrow> string \<Rightarrow> 'w loop_state \<Rightarrow> 'w loop_state" where
  "revision_step eval_fn llm context question model_name st =
     (let rounds_done = ls_rounds_done st + 1;
          (rev, w) = revise llm (ls_current st) (ev_feedback (ls_ev st)) context question
                       (ls_world st);
          calls = ls_calls st @ [ReviseCall (ls_current st) (ev_feedback (ls_ev st))];
          current = rv_revised rev;
          (ev, w) = eval_fn current context question model_name w;
          calls = calls @ [EvalCall current];
          history = ls_history st @
                      [\<lparr>r_round = rounds_done, r_answer = current, r_score = ev_score ev,
                        r_feedback = ev_feedback ev\<rparr>]
      in \<lparr>ls_current = current, ls_ev = ev, ls_history = history,
          ls_rounds_done = rounds_done, ls_calls = calls, ls_world = w\<rparr>)"

function revision_while ::
  "'w eval_fn \<Rightarrow> 'w llm \<Rightarrow> string \<Rightarrow> string \<Rightarrow> string \<Rightarrow> int \<Rightarrow> 'w loop_state \<Rightarrow> 'w loop_state"
  where
  "revision_while eval_fn llm context question model_name max_rounds st =
     (if ev_needs_revision (ls_ev st) \<and> ls_rounds_done st < max_rounds
      then revision_while eval_fn llm context question model_name max_rounds
             (revision_step eval_fn llm context question model_name st)
      else st)"
  by pat_completeness auto
termination
  by (relation "measure (\<lambda>(eval_fn, llm, context, question, model_name, max_rounds, st).
                  nat (max_rounds - ls_rounds_done st))")
     (auto simp: revision_step_def Let_def split: prod.split)

text \<open>
  \<open>history[0]\<close> and \<open>history[-1]\<close>: subscripting raises \<open>IndexError\<close> outside
  \<open>-len(xs) .. len(xs) - 1\<close>, and \<open>xs[-k]\<close> is the \<open>k\<close>-th element from the right.
\<close>

definition py_index :: "'a list \<Rightarrow> int \<Rightarrow> py_error + 'a" where
  "py_index xs i =
     (if i < - int (length xs) \<or> int (length xs) \<le> i then Inl IndexError
      else if i < 0 then Inr (xs ! (length xs - nat (- i)))
      else Inr (xs ! nat i))"

record loop_result =
  rl_final_answer :: string
  rl_rounds :: int
  rl_history :: "history_entry list"
  rl_got_better :: bool
  rl_score_before :: int
  rl_score_after :: int

definition run_revision_loop ::
  "'w eval_fn \<Rightarrow> 'w llm \<Rightarrow> string \<Rightarrow> string \<Rightarrow> string \<Rightarrow> string \<Rightarrow> int \<Rightarrow> 'w \<Rightarrow>
   (py_error + loop_result) \<times> call list \<times> 'w" where
  "run_revision_loop eval_fn llm answer context question model_name max_rounds w =
     (let history = [];
          current = answer;
          (ev, w) = eval_fn current context question model_name w;
          calls = [EvalCall current];
          history = history @
                      [\<lparr>r_round = 0, r_answer = current, r_score = ev_score ev,
                        r_feedback = ev_feedback ev\<rparr>];
          rounds_done = 0;
          st = revision_while eval_fn llm context question model_name max_rounds
                 \<lparr>ls_current = current, ls_ev = ev, ls_history = history,
                  ls_rounds_done = rounds_done, ls_calls = calls, ls_world = w\<rparr>
      in (case py_index (ls_history st) 0 of
            Inl e \<Rightarrow> Inl e
          | Inr first_entry \<Rightarrow>
              (case py_index (ls_history st) (- 1) of
                 Inl e \<Rightarrow> Inl e
               | Inr last_entry \<Rightarrow>
                   (let first_score = r_score first_entry;
                        last_score = r_score last_entry
                    in Inr \<lparr>rl_final_answer = ls_current st, rl_rounds = ls_rounds_done st,
                            rl_history = ls_history st,
                            rl_got_better = (last_score > first_score),
                            rl_score_before = first_score,
                            rl_score_after = last_score\<rparr>)),
          ls_calls st, ls_world st))"

text \<open>
  What holds of the loop state before and after every pass: the counts of calls and the
  length of the history follow \<open>rounds_done\<close>, and entry \<open>i\<close> of the history has round \<open>i\<close>.
\<close>

definition loop_inv :: "'w loop_state \<Rightarrow> bool" where
  "loop_inv st =
     (0 \<le> ls_rounds_done st \<and>
      int (length (filter is_eval (ls_calls st))) = ls_rounds_done st + 1 \<and>
      int (length (filter is_revise (ls_calls st))) = ls_rounds_done st \<and>
      int (length (ls_history st)) = ls_rounds_done st + 1 \<and>
      (\<forall>i < length (ls_history st). r_round (ls_history st ! i) = int i))"

section \<open>Regular expressions of planner_agent.py\<close>

text \<open>
  The patterns of the planner use literal characters, \<open>\b\<close>, \<open>\s+\<close>, \<open>?\<close>, groups and
  \<open>|\<close>. \<open>rx_match\<close> is the backtracking matcher of \<open>re\<close>: from a position, given as the
  character before it (if any) and the rest of the text, it lists the positions where a
  match can end, in the order \<open>re\<close> tries them (the left alternative first, the longer
  repetition first). The match \<open>re\<close> reports is the first of the list.
\<close>

definition word_char :: "char \<Rightarrow> bool" where
  "word_char c = (let n = (of_char c :: nat) in
     (48 \<le> n \<and> n \<le> 57) \<or> (65 \<le> n \<and> n \<le> 90) \<or> n = 95 \<or> (97 \<le> n \<and> n \<le> 122) \<or>
     n = 170 \<or> n = 178 \<or> n = 179 \<or> n = 181 \<or> n = 185 \<or> n = 186 \<or>
     (188 \<le> n \<and> n \<le> 190) \<or> (192 \<le> n \<and> n \<le> 214) \<or> (216 \<le> n \<and> n \<le> 246) \<or>
     248 \<le> n)"

datatype rx = Eps | Chr char | PlusSpace | WordB | Seq rx rx | Alt rx rx | Opt rx

type_synonym pos = "char option \<times> string"

definition at_boundary :: "pos \<Rightarrow> bool" where
  "at_boundary ps =
     ((case fst ps of None \<Rightarrow> False | Some c \<Rightarrow> word_char c) \<noteq>
      (case snd ps of [] \<Rightarrow> False | c # cs \<Rightarrow> word_char c))"

text \<open>\<open>\s+\<close> from a position: every non-empty part of the run of white space, longest first.\<close>

fun space_runs :: "pos \<Rightarrow> pos list" where
  "space_runs (p, []) = []"
| "space_runs (p, c # cs) =
     (if is_space c then space_runs (Some c, cs) @ [(Some c, cs)] else [])"

fun rx_match :: "rx \<Rightarrow> pos \<Rightarrow> pos list" where
  "rx_match Eps ps = [ps]"
| "rx_match (Chr c) ps =
     (case snd ps of [] \<Rightarrow> [] | x # xs \<Rightarrow> if x = c then [(Some x, xs)] else [])"
| "rx_match PlusSpace ps = space_runs ps"
| "rx_match WordB ps = (if at_boundary ps then [ps] else [])"
| "rx_match (Seq a b) ps = concat (map (rx_match b) (rx_match a ps))"
| "rx_match (Alt a b) ps = rx_match a ps @ rx_match b ps"
| "rx_match (Opt a) ps = rx_match a ps @ [ps]"

text \<open>
  \<open>re.search\<close>: the first position, from the left, where the pattern matches. The result
  is the text before the match and the position where the match ends.
\<close>

fun rx_find :: "rx \<Rightarrow> char option \<Rightarrow> string \<Rightarrow> (string \<times> pos) option" where
  "rx_find r p [] = (case rx_match r (p, []) of [] \<Rightarrow> None | e # es \<Rightarrow> Some ([], e))"
| "rx_find r p (c # cs) =
     (case rx_match r (p, c # cs) of
        e # es \<Rightarrow> Some ([], e)
      | [] \<Rightarrow> (case rx_find r (Some c) cs of
                 None \<Rightarrow> None
               | Some (pre, e) \<Rightarrow> Some (c # pre, e)))"

definition rx_search :: "rx \<Rightarrow> string \<Rightarrow> bool" where
  "rx_search r s = (rx_find r None s \<noteq> None)"

text \<open>
  \<open>re.split\<close> for a pattern without capturing groups: the pieces of the text between
  successive matches. Every pattern of the planner consumes at least one character, so
  the text left after a match is shorter; the last branch, for a match that consumes
  nothing, is never taken by them.
\<close>

function rx_split_from :: "rx \<Rightarrow> char option \<Rightarrow> string \<Rightarrow> string list" where
  "rx_split_from r p s =
     (case rx_find r p s of
        None \<Rightarrow> [s]
      | Some (pre, e) \<Rightarrow>
          if length (snd e) < length s then pre # rx_split_from r (fst e) (snd e) else [s])"
  by pat_completeness auto
termination
  by (relation "measure (\<lambda>(r, p, s). length s)") auto

definition rx_split :: "rx \<Rightarrow> string \<Rightarrow> string list" where
  "rx_split r s = rx_split_from r None s"

text \<open>\<open>re.escape(word)\<close> as a pattern: the characters of the word, each taken literally.\<close>

fun rx_lit :: "string \<Rightarrow> rx" where
  "rx_lit [] = Eps"
| "rx_lit (c # cs) = Seq (Chr c) (rx_lit cs)"

definition rx_word :: "string \<Rightarrow> rx" where
  "rx_word w = Seq WordB (Seq (rx_lit w) WordB)"

text \<open>\<open>\b(and)\b\<close> and \<open>\band\b\<close>\<close>

definition and_rx :: rx where
  "and_rx = rx_word ''and''"

text \<open>\<open>\b(?:and|vs\.?|versus|compared?\s+to|contrast\s+with)\b\<close>\<close>

definition connector_rx :: rx where
  "connector_rx =
     Seq WordB (Seq
       (Alt (rx_lit ''and'')
       (Alt (Seq (rx_lit ''vs'') (Opt (Chr CHR ''.'')))
       (Alt (rx_lit ''versus'')
       (Alt (Seq (rx_lit ''compare'') (Seq (Opt (Chr CHR ''d'')) (Seq PlusSpace (rx_lit ''to''))))
            (Seq (rx_lit ''contrast'') (Seq PlusSpace (rx_lit ''with'')))))))
       WordB)"

section \<open>planner_agent.py\<close>

definition COMPOUND_WORDS :: "string list" where
  "COMPOUND_WORDS =
     [''and'', ''compare'', ''comparison'', ''difference'', ''differences'',
      ''versus'', ''vs'', ''contrast'', ''advantages and disadvantages'']"

definition SECTION_MAP :: "(string \<times> string) list" where
  "SECTION_MAP =
     [(''methodology'', ''Find info about the methodology or methods used.''),
      (''method'', ''Find info about the methodology or methods used.''),
      (''approach'', ''Find info about the approach taken.''),
      (''limitation'', ''Find info about the limitations.''),
      (''limitations'', ''Find info about the limitations.''),
      (''result'', ''Find info about the results.''),
      (''results'', ''Find info about the results.''),
      (''finding'', ''Find the key findings.''),
      (''findings'', ''Find the key findings.''),
      (''contribution'', ''Find the contributions of this work.''),
      (''contributions'', ''Find the contributions of this work.''),
      (''conclusion'', ''Find the conclusions.''),
      (''abstract'', ''Find the abstract or summary.''),
      (''introduction'', ''Find information from the introduction.''),
      (''related work'', ''Find info about related work.''),
      (''future work'', ''Find info about future work suggestions.''),
      (''evaluation'', ''Find info about how they evaluated their work.''),
      (''experiment'', ''Find info about the experiments.''),
      (''dataset'', ''Find info about the dataset used.'')]"

record complexity =
  c_is_complex :: bool
  c_reason :: string

definition complex_phrases :: "string list" where
  "complex_phrases =
     [''compare'', ''difference'', ''advantages and disadvantages'',
      ''limitations'', ''pros and cons'', ''contrast'']"

definition check_complexity :: "string \<Rightarrow> complexity" where
  "check_complexity query =
     (let q = strip (lower query)
      in case find (\<lambda>phrase. contains phrase q) complex_phrases of
           Some phrase \<Rightarrow>
             \<lparr>c_is_complex = True,
              c_reason = ''Found '' @ [CHR 0x27] @ phrase @ [CHR 0x27] @
                         '' - query likely needs multiple retrieval steps''\<rparr>
         | None \<Rightarrow>
             if rx_search and_rx q \<and>
                (let parts = rx_split and_rx q
                 in length parts \<ge> 2 \<and> list_all (\<lambda>p. length (strip p) > 5) parts)
             then \<lparr>c_is_complex = True,
                   c_reason = ''Query uses 'and' to connect multiple topics''\<rparr>
             else \<lparr>c_is_complex = False, c_reason = ''Simple single-topic query''\<rparr>)"

text \<open>\<open>str(n)\<close> for a number that is not negative.\<close>

fun str_nat :: "nat \<Rightarrow> string" where
  "str_nat n =
     (if n < 10 then [''0123456789'' ! n]
      else str_nat (n div 10) @ [''0123456789'' ! (n mod 10)])"

text \<open>
  \<open>s.capitalize()\<close>: the first character in upper case, the others in lower case. The
  three characters of the range whose upper case lies outside it (code points 181, 223
  and 255) stay as they are.
\<close>

definition capitalize :: "string \<Rightarrow> string" where
  "capitalize s = (case s of [] \<Rightarrow> [] | c # cs \<Rightarrow> upper_char c # map lower_char cs)"

text \<open>The loop over \<open>SECTION_MAP.items()\<close>, with the set \<open>seen_desc\<close>.\<close>

fun match_sections :: "(string \<times> string) list \<Rightarrow> string \<Rightarrow> string set \<Rightarrow> string list" where
  "match_sections [] q_lower seen_desc = []"
| "match_sections ((keyword, desc) # rest) q_lower seen_desc =
     (if contains keyword q_lower \<and> desc \<notin> seen_desc
      then desc # match_sections rest q_lower (insert desc seen_desc)
      else match_sections rest q_lower seen_desc)"

text \<open>\<open>f"Subtask {i+1}: {x}"\<close> for the items of \<open>enumerate(xs)\<close>, counting from \<open>i\<close>.\<close>

fun number_subtasks :: "nat \<Rightarrow> string list \<Rightarrow> string list" where
  "number_subtasks i [] = []"
| "number_subtasks i (x # xs) =
     (''Subtask '' @ str_nat (i + 1) @ '': '' @ x) # number_subtasks (i + 1) xs"

record plan =
  p_original_query :: string
  p_complexity :: complexity
  p_is_compound :: bool
  p_subtasks :: "string list"
  p_reasoning :: string

definition plan_query :: "string \<Rightarrow> plan" where
  "plan_query query =
     (let q_lower = strip (lower query);
          complexity = check_complexity query
      in if \<not> c_is_complex complexity then
           (let matched = match_sections SECTION_MAP q_lower {};
                (subtasks, reasoning) =
                  (if matched \<noteq> []
                   then (number_subtasks 0 matched,
                         ''Simple query targeting '' @ str_nat (length matched) @
                         '' section(s).'')
                   else ([''Subtask 1: '' @ query],
                         ''Simple query, no decomposition needed.''))
            in \<lparr>p_original_query = query, p_complexity = complexity,
                p_is_compound = (length subtasks > 1), p_subtasks = subtasks,
                p_reasoning = reasoning\<rparr>)
         else
           (let is_compound = list_ex (\<lambda>word. rx_search (rx_word word) q_lower) COMPOUND_WORDS;
                (subtasks, reasoning) =
                  (if is_compound then
                     (let parts = rx_split connector_rx q_lower;
                          parts = filter (\<lambda>p. p \<noteq> []) (map strip parts)
                      in if length parts > 1
                         then (number_subtasks 0 (map capitalize parts) @
                                 [''Subtask '' @ str_nat (length parts + 1) @
                                  '': Combine and summarize findings.''],
                               ''Split into '' @ str_nat (length parts) @
                               '' parts + synthesis step.'')
                         else ([''Subtask 1: '' @ query],
                               ''Detected compound keyword but couldn't split meaningfully.''))
                   else ([''Subtask 1: '' @ query], ''Marked complex but single-topic.''))
            in \<lparr>p_original_query = query, p_complexity = complexity,
                p_is_compound = (is_compound \<or> length subtasks > 1), p_subtasks = subtasks,
                p_reasoning = reasoning\<rparr>))"

text \<open>
  The containment the specification speaks of: some contiguous part of the query is the
  phrase, up to the case of letters.
\<close>

definition contains_ci :: "string \<Rightarrow> string \<Rightarrow> bool" where
  "contains_ci phrase query =
     (\<exists>pre mid post. query = pre @ mid @ post \<and> lower mid = lower phrase)"

section \<open>chunking.py\<close>

text \<open>
  An index of a slice, as \<open>s[a:b]\<close>, \<open>s.rfind(sub, a, b)\<close> read it: a negative index counts
  from the end, and the result is clamped to \<open>0 .. len(s)\<close>.
\<close>

definition slice_index :: "nat \<Rightarrow> int \<Rightarrow> nat" where
  "slice_index n i = (if i < 0 then nat (max (int n + i) 0) else min (nat i) n)"

definition slice :: "'a list \<Rightarrow> int \<Rightarrow> int \<Rightarrow> 'a list" where
  "slice xs a b =
     (let a' = slice_index (length xs) a; b' = slice_index (length xs) b
      in take (b' - a') (drop a' xs))"

text \<open>
  \<open>text.rfind(sub, a, b)\<close>: the highest index where \<open>sub\<close> occurs inside \<open>text[a:b]\<close>,
  or \<open>-1\<close>.
\<close>

definition rfind :: "string \<Rightarrow> string \<Rightarrow> int \<Rightarrow> int \<Rightarrow> int" where
  "rfind text sub a b =
     (let a' = slice_index (length text) a; b' = slice_index (length text) b;
          found = filter (\<lambda>i. i + length sub \<le> b' \<and> prefix sub (drop i text)) [a' ..< b' + 1]
      in if found = [] then - 1 else int (last found))"

record chunk =
  ch_text :: string
  ch_chunk_id :: int
  ch_start :: int
  ch_end :: int

text \<open>Where the chunk that starts at \<open>pos\<close> ends.\<close>

definition chunk_end :: "string \<Rightarrow> int \<Rightarrow> int \<Rightarrow> int" where
  "chunk_end text chunk_size pos =
     (let end = pos + chunk_size
      in if end < int (length text) then
           (let bp = rfind text ''. '' pos end;
                bp = (if bp = - 1 then rfind text ''\<newline>'' pos end else bp);
                bp = (if bp = - 1 then rfind text '' '' pos end else bp)
            in if bp \<noteq> - 1 \<and> bp > pos then bp + 1 else end)
         else end)"

text \<open>One pass through the loop body: the next \<open>idx\<close> and \<open>result\<close>.\<close>

definition chunk_step :: "string \<Rightarrow> int \<Rightarrow> int \<Rightarrow> int \<Rightarrow> chunk list \<Rightarrow> int \<times> chunk list" where
  "chunk_step text chunk_size pos idx result =
     (let end = chunk_end text chunk_size pos;
          piece = strip (slice text pos end)
      in if piece \<noteq> []
         then (idx + 1,
               result @ [\<lparr>ch_text = piece, ch_chunk_id = idx, ch_start = pos, ch_end = end\<rparr>])
         else (idx, result))"

text \<open>
  The \<open>while\<close> loop. It need not end, so it is a partial function: \<open>None\<close> is the loop
  that runs for ever.
\<close>

partial_function (option) chunk_loop ::
  "string \<Rightarrow> int \<Rightarrow> int \<Rightarrow> int \<Rightarrow> int \<Rightarrow> chunk list \<Rightarrow> chunk list option" where
  "chunk_loop text chunk_size overlap pos idx result =
     (if pos < int (length text)
      then chunk_loop text chunk_size overlap (pos + (chunk_size - overlap))
             (fst (chunk_step text chunk_size pos idx result))
             (snd (chunk_step text chunk_size pos idx result))
      else Some result)"

definition chunk_text :: "string \<Rightarrow> int \<Rightarrow> int \<Rightarrow> chunk list option" where
  "chunk_text text chunk_size overlap =
     (if text = [] \<or> strip text = [] then Some []
      else chunk_loop text chunk_size overlap 0 0 [])"

section \<open>Properties of memory.py\<close>

lemma slice_from_neg:
  assumes "1 \<le> n" and "n \<le> int (length xs)"
  shows "slice_from (- n) xs = drop (length xs - nat n) xs"
proof -
  from assms have "nat (int (length xs) - n) = length xs - nat n"
    by linarith
  with assms show ?thesis
    by (simp add: slice_from_def Let_def max_def)
qed

lemma recent_window:
  assumes "1 \<le> n"
  shows "(if int (length lg) \<ge> n then slice_from (- n) lg else lg)
         = last_entries (min (nat n) (count lg)) lg"
proof (cases "n \<le> int (length lg)")
  case True
  then have "min (nat n) (length lg) = nat n"
    by linarith
  with True assms show ?thesis
    by (simp add: slice_from_neg last_entries_def count_def)
next
  case False
  then have "min (nat n) (length lg) = length lg"
    by linarith
  with False show ?thesis
    by (simp add: last_entries_def count_def)
qed

lemma last_entries_nonempty:
  assumes "xs \<noteq> []" and "0 < k"
  shows "last_entries k xs \<noteq> []"
proof -
  from assms have "length xs - k < length xs"
    by (cases xs) auto
  then show ?thesis
    by (simp add: last_entries_def)
qed

lemma count_save:
  "count (save now query subtasks chunks_used answer critic_score feedback final_answer
            revisions lg) = count lg + 1"
  by (simp add: count_def save_def)

lemma count_clear: "count (clear lg) = 0"
  by (simp add: count_def clear_def)

text \<open>
  C6, as stated, fails twice. With \<open>n = 0\<close> the slice \<open>log[-0:]\<close> is the whole list, so
  every entry is returned where the claim has none; and on an empty log the result is the
  fixed text \<open>No previous queries.\<close>, not the text of zero entries.
\<close>

theorem get_recent_counterexample:
  "get_recent 0
     [\<lparr>e_time = ''t'', e_query = ''q'', e_subtasks = [], e_chunks_used = ([] :: nat list),
       e_first_answer = ''a'', e_critic_score = 0, e_feedback = [], e_final_answer = [],
       e_revisions = 0\<rparr>]
   \<noteq> recent_spec 0
     [\<lparr>e_time = ''t'', e_query = ''q'', e_subtasks = [], e_chunks_used = ([] :: nat list),
       e_first_answer = ''a'', e_critic_score = 0, e_feedback = [], e_final_answer = [],
       e_revisions = 0\<rparr>]
   \<and> get_recent 1 ([] :: nat memory) \<noteq> recent_spec 1 ([] :: nat memory)"
  by (simp add: get_recent_def recent_spec_def slice_from_def last_entries_def count_def
      qa_lines_def str_or_def)

text \<open>
  C6, amended: for every \<open>n \<ge> 1\<close>, \<open>get_recent n\<close> on an empty log is the text
  \<open>No previous queries.\<close>, and on a non-empty log it is the last \<open>min n (count lg)\<close>
  entries, oldest first, each as \<open>Q: query\<close> and \<open>A: answer\<close> (the final answer when it is
  non-empty, else the first answer), joined by a blank line.
\<close>

theorem get_recent_window:
  assumes "1 \<le> n"
  shows "get_recent n lg =
           (if lg = [] then ''No previous queries.'' else recent_spec n lg)"
proof (cases "lg = []")
  case True
  then show ?thesis
    by (simp add: get_recent_def slice_from_def)
next
  case False
  with assms have "last_entries (min (nat n) (count lg)) lg \<noteq> []"
    by (intro last_entries_nonempty) (auto simp: count_def)
  with False show ?thesis
    unfolding get_recent_def recent_spec_def Let_def recent_window [OF assms]
    by simp
qed

text \<open>After two \<open>save\<close> calls, \<open>get_recent 1\<close> is the second entry alone.\<close>

theorem get_recent_window_witness:
  "(1::int) \<le> 1 \<and>
   count (save ''t2'' ''q2'' None None ''a2'' 7 [] ''f2'' 0
           (save ''t1'' ''q1'' None None ''a1'' 8 [] [] 0 ([] :: nat memory))) = 2 \<and>
   get_recent 1 (save ''t2'' ''q2'' None None ''a2'' 7 [] ''f2'' 0
           (save ''t1'' ''q1'' None None ''a1'' 8 [] [] 0 ([] :: nat memory)))
     = ''Q: q2\<newline>A: f2''"
  using get_recent_window [of 1 "save ''t2'' ''q2'' None None ''a2'' 7 [] ''f2'' 0
           (save ''t1'' ''q1'' None None ''a1'' 8 [] [] 0 ([] :: nat memory))"]
  by (simp add: save_def recent_spec_def last_entries_def count_def qa_lines_def str_or_def
      list_or_empty_def)

section \<open>Properties of answer_agent.py\<close>

lemma make_prompt_length:
  "length (make_prompt question context) = length question + length context + 217"
  by (simp add: make_prompt_def)

text \<open>
  C9: when the prompt built from the question and the context is longer than 2000
  characters, \<open>build_answer\<close> sends the prompt rebuilt from the first 1800 characters of
  the context, and returns; when it is 2000 characters or fewer, it sends that prompt
  as it is. The prompt sent is the argument of \<open>llm\<close> and the \<open>prompt_used\<close> of the result.
\<close>

theorem build_answer_prompt:
  "(2000 < length (make_prompt question context) \<longrightarrow>
      build_answer llm question context model_name w =
        (\<lparr>a_answer = strip (fst (llm (make_prompt question (take 1800 context)) w)),
          a_prompt_used = make_prompt question (take 1800 context),
          a_model = model_name\<rparr>,
         snd (llm (make_prompt question (take 1800 context)) w))) \<and>
   (length (make_prompt question context) \<le> 2000 \<longrightarrow>
      build_answer llm question context model_name w =
        (\<lparr>a_answer = strip (fst (llm (make_prompt question context) w)),
          a_prompt_used = make_prompt question context,
          a_model = model_name\<rparr>,
         snd (llm (make_prompt question context) w)))"
  by (simp add: build_answer_def Let_def split: prod.split)

text \<open>
  A service that answers with its own prompt shows what was sent: a context of 2000
  characters is cut to 1800, a context of three characters is not.
\<close>

theorem build_answer_prompt_witness:
  "2000 < length (make_prompt ''What?'' (replicate 2000 CHR ''x'')) \<and>
   build_answer (\<lambda>p w. (p, Suc w)) ''What?'' (replicate 2000 CHR ''x'') LLM_NAME 0 =
     (\<lparr>a_answer = strip (make_prompt ''What?'' (replicate 1800 CHR ''x'')),
       a_prompt_used = make_prompt ''What?'' (replicate 1800 CHR ''x''),
       a_model = LLM_NAME\<rparr>, Suc 0) \<and>
   length (make_prompt ''What?'' ''ctx'') \<le> 2000 \<and>
   build_answer (\<lambda>p w. (p, Suc w)) ''What?'' ''ctx'' LLM_NAME 0 =
     (\<lparr>a_answer = strip (make_prompt ''What?'' ''ctx''),
       a_prompt_used = make_prompt ''What?'' ''ctx'',
       a_model = LLM_NAME\<rparr>, Suc 0)"
proof -
  have long: "2000 < length (make_prompt ''What?'' (replicate 2000 CHR ''x''))"
    by (simp add: make_prompt_length)
  have short: "length (make_prompt ''What?'' ''ctx'') \<le> 2000"
    by (simp add: make_prompt_length)
  from long short
    build_answer_prompt [of "''What?''" "replicate 2000 CHR ''x''" "\<lambda>p w. (p, Suc w)" LLM_NAME 0]
    build_answer_prompt [of "''What?''" "''ctx''" "\<lambda>p w. (p, Suc w)" LLM_NAME 0]
  show ?thesis by simp
qed

section \<open>Properties of critic_agent.py\<close>

lemmas text_eval = split_ws_def lower_def lower_char_def is_upper_def is_space_def

lemma truediv_pos: "0 < b \<Longrightarrow> truediv a b = Inr (of_nat a / of_nat b)"
  by (simp add: truediv_def)

text \<open>Neither division of \<open>heuristic_checks\<close> can raise: both divisors are guarded.\<close>

lemma grounding_overlap_total: "\<exists>r. grounding_overlap answer context = Inr r"
  by (simp add: grounding_overlap_def Let_def truediv_pos)

lemma relevance_overlap_total: "\<exists>r. relevance_overlap answer question = Inr r"
  by (simp add: relevance_overlap_def Let_def truediv_def)

lemma heuristic_checks_total:
  "\<exists>h. heuristic_checks pct answer context question = Inr h \<and>
       1 \<le> h_score h \<and> h_score h \<le> 10"
proof -
  obtain r where r: "grounding_overlap answer context = Inr r"
    using grounding_overlap_total by blast
  obtain r' where r': "relevance_overlap answer question = Inr r'"
    using relevance_overlap_total by blast
  show ?thesis
    by (simp add: heuristic_checks_def r r' Let_def split: prod.split)
qed

text \<open>
  C2: for every answer, context and question, \<open>evaluate\<close> returns (no exception, also
  when the answer has no word outside the stop words), its score is between 1 and 10,
  and \<open>needs_revision\<close> is exactly \<open>score < 7\<close>.
\<close>

theorem evaluate_score_range:
  "\<exists>ev. fst (evaluate llm pct answer context question w) = Inr ev \<and>
        1 \<le> ev_score ev \<and> ev_score ev \<le> 10 \<and>
        ev_needs_revision ev = (ev_score ev < 7)"
proof -
  obtain h where h: "heuristic_checks pct answer context question = Inr h"
    and b: "1 \<le> h_score h" "h_score h \<le> 10"
    using heuristic_checks_total by blast
  show ?thesis
    by (simp add: evaluate_def h b Let_def split: prod.split)
qed

text \<open>An answer made of stop words only: no exception, zero grounding, score 2.\<close>

lemma evaluate_stop_words_only:
  "map_sum id (\<lambda>ev. (ev_score ev, ev_needs_revision ev))
     (fst (evaluate (\<lambda>p w. (''fine'', w)) (\<lambda>r. ''?'') ''the'' ''the'' ''what'' (0::nat)))
   = Inr (2, True)"
  by (simp add: evaluate_def llm_eval_def heuristic_checks_def length_check_def
      no_info_check_def no_info_def relevance_overlap_def relevance_check_def truediv_def
      grounding_overlap_def grounding_check_def text_eval stop_def)

text \<open>
  C8: the score, the \<open>needs_revision\<close> flag and the heuristic notes of \<open>evaluate\<close> are the
  same for any two generation services and any two states of the world, whatever
  feedback text they produce.
\<close>

theorem evaluate_score_independent:
  "\<exists>e1 e2. fst (evaluate llm1 pct answer context question w1) = Inr e1 \<and>
           fst (evaluate llm2 pct answer context question w2) = Inr e2 \<and>
           ev_score e1 = ev_score e2 \<and>
           ev_needs_revision e1 = ev_needs_revision e2 \<and>
           ev_notes e1 = ev_notes e2"
proof -
  obtain h where h: "heuristic_checks pct answer context question = Inr h"
    using heuristic_checks_total by blast
  show ?thesis
    by (simp add: evaluate_def h Let_def split: prod.split)
qed

text \<open>The feedback text does reach the summary: two services, two summaries.\<close>

lemma evaluate_feedback_differs:
  "map_sum id ev_feedback
     (fst (evaluate (\<lambda>p w. (''fine'', w)) (\<lambda>r. ''?'') ''the'' ''the'' ''what'' (0::nat)))
   \<noteq> map_sum id ev_feedback
     (fst (evaluate (\<lambda>p w. (''poor'', w)) (\<lambda>r. ''?'') ''the'' ''the'' ''what'' (0::nat)))"
  by (simp add: evaluate_def llm_eval_def heuristic_checks_def length_check_def
      no_info_check_def no_info_def relevance_overlap_def relevance_check_def truediv_def
      grounding_overlap_def grounding_check_def text_eval stop_def strip_def)

text \<open>
  C4, as stated, fails when the answer has no word outside the stop words: the ratio is
  set to 0, not 100%, and 3 is taken from the score.
\<close>

theorem grounding_identical_counterexample:
  "grounding_overlap ''the'' ''the'' = Inr 0 \<and>
   snd (grounding_check (\<lambda>r. ''0%'') 0) = 3 \<and>
   map_sum id h_score (heuristic_checks (\<lambda>r. ''0%'') ''the'' ''the'' ''what'') = Inr 2"
  by (simp add: heuristic_checks_def length_check_def no_info_check_def no_info_def
      relevance_overlap_def relevance_check_def truediv_def
      grounding_overlap_def grounding_check_def text_eval stop_def)

lemma grounding_overlap_same:
  assumes "set (split_ws (lower answer)) - stop \<noteq> {}"
  shows "grounding_overlap answer answer = Inr 1"
proof -
  have "finite (set (split_ws (lower answer)) - stop)"
    by simp
  with assms have "0 < card (set (split_ws (lower answer)) - stop)"
    by (simp add: card_gt_0_iff)
  with assms show ?thesis
    by (simp add: grounding_overlap_def Let_def truediv_pos)
qed

text \<open>
  C4, amended: for every answer that has at least one word outside the stop words and
  is evaluated against a context identical to it, the grounding ratio is 1 (100%), the
  grounding note is the one for good grounding, and nothing is taken from the score for
  grounding: the score is 10 less the length, no-information and relevance deductions,
  clamped to 1..10.
\<close>

theorem grounding_identical:
  assumes "set (split_ws (lower answer)) - stop \<noteq> {}"
  shows "grounding_overlap answer answer = Inr 1 \<and>
         grounding_check pct 1 = (''Good grounding ('' @ pct 1 @ '')'', 0) \<and>
         (\<exists>h r. heuristic_checks pct answer answer question = Inr h \<and>
                relevance_overlap answer question = Inr r \<and>
                map_of (h_notes h) ''grounding'' = Some (''Good grounding ('' @ pct 1 @ '')'') \<and>
                h_score h = max 1 (min 10 (10 - snd (length_check answer)
                                   - snd (no_info_check answer)
                                   - snd (relevance_check pct r))))"
proof -
  note g = grounding_overlap_same [OF assms]
  have c: "grounding_check pct 1 = (''Good grounding ('' @ pct 1 @ '')'', 0)"
    by (simp add: grounding_check_def)
  obtain r where r: "relevance_overlap answer question = Inr r"
    using relevance_overlap_total by blast
  show ?thesis
    by (simp add: g c r heuristic_checks_def Let_def split: prod.split)
qed

text \<open>
  An answer of four words, one of them a stop word, against itself: the ratio is 1, and
  the score of 7 loses 1 for length and 2 for relevance, nothing for grounding.
\<close>

theorem grounding_identical_witness:
  "set (split_ws (lower ''The model uses attention'')) - stop \<noteq> {} \<and>
   grounding_overlap ''The model uses attention'' ''The model uses attention'' = Inr 1 \<and>
   map_sum id h_score (heuristic_checks (\<lambda>r. ''100%'') ''The model uses attention''
        ''The model uses attention'' ''What does the model use?'') = Inr 7"
proof -
  have h: "set (split_ws (lower ''The model uses attention'')) - stop \<noteq> {}"
    by (simp add: text_eval stop_def)
  have s: "map_sum id h_score (heuristic_checks (\<lambda>r. ''100%'') ''The model uses attention''
        ''The model uses attention'' ''What does the model use?'') = Inr 7"
    by (simp add: heuristic_checks_def length_check_def no_info_check_def no_info_def
        relevance_overlap_def relevance_check_def truediv_def
        grounding_overlap_def grounding_check_def text_eval stop_def)
  from grounding_identical [OF h, of "\<lambda>r. ''100%''" "''What does the model use?''"] h s
  show ?thesis by blast
qed

section \<open>Properties of revision_agent.py\<close>

declare revision_while.simps [simp del]

lemma revision_step_rounds:
  "ls_rounds_done (revision_step eval_fn llm ctx q mn st) = ls_rounds_done st + 1"
  by (simp add: revision_step_def Let_def split: prod.split)

lemma revision_step_inv:
  assumes "loop_inv st"
  shows "loop_inv (revision_step eval_fn llm ctx q mn st)"
proof -
  from assms have len: "length (ls_history st) = nat (ls_rounds_done st + 1)"
    unfolding loop_inv_def by linarith
  with assms show ?thesis
    by (auto simp: loop_inv_def revision_step_def Let_def nth_append less_Suc_eq split: prod.split)
qed

lemma revision_while_inv:
  assumes "loop_inv st" and "ls_rounds_done st \<le> bound" and "max_rounds \<le> bound"
  shows "loop_inv (revision_while eval_fn llm ctx q mn max_rounds st) \<and>
         ls_rounds_done (revision_while eval_fn llm ctx q mn max_rounds st) \<le> bound"
  using assms
proof (induction eval_fn llm ctx q mn max_rounds st rule: revision_while.induct)
  case (1 eval_fn llm ctx q mn max_rounds st)
  show ?case
  proof (cases "ev_needs_revision (ls_ev st) \<and> ls_rounds_done st < max_rounds")
    case True
    then have unfold: "revision_while eval_fn llm ctx q mn max_rounds st =
        revision_while eval_fn llm ctx q mn max_rounds (revision_step eval_fn llm ctx q mn st)"
      by (subst revision_while.simps) simp
    have "loop_inv (revision_step eval_fn llm ctx q mn st)"
      using "1.prems"(1) by (rule revision_step_inv)
    moreover have "ls_rounds_done (revision_step eval_fn llm ctx q mn st) \<le> bound"
      using True "1.prems"(3) by (simp add: revision_step_rounds)
    ultimately show ?thesis
      using "1.IH" [OF True] "1.prems"(3) by (simp add: unfold)
  next
    case False
    then have "revision_while eval_fn llm ctx q mn max_rounds st = st"
      by (subst revision_while.simps) auto
    with "1.prems" show ?thesis
      by simp
  qed
qed

lemma py_index_first: "xs \<noteq> [] \<Longrightarrow> py_index xs 0 = Inr (xs ! 0)"
  by (simp add: py_index_def)

lemma py_index_last: "xs \<noteq> [] \<Longrightarrow> py_index xs (- 1) = Inr (last xs)"
  by (cases xs rule: rev_cases) (simp_all add: py_index_def nth_append)


text \<open>
  C1: with a round cap \<open>max_rounds \<ge> 0\<close>, for every initial answer, context, question,
  evaluation function and generation service, \<open>run_revision_loop\<close> returns a result (not
  an error), having called the evaluation function at most \<open>max_rounds + 1\<close> times and
  \<open>revise\<close> at most \<open>max_rounds\<close> times; the history has one entry per evaluation, its
  first entry has round 0, and each later entry has the round of the one before plus 1.
  The result is returned whatever the last score is, so also when the cap is reached
  with a score below the threshold.
\<close>

theorem revision_loop_bounds:
  assumes "0 \<le> max_rounds"
  shows "\<exists>res calls w'.
     run_revision_loop eval_fn llm answer ctx q mn max_rounds w = (Inr res, calls, w') \<and>
     int (length (filter is_eval calls)) \<le> max_rounds + 1 \<and>
     int (length (filter is_revise calls)) \<le> max_rounds \<and>
     length (rl_history res) = length (filter is_eval calls) \<and>
     rl_rounds res = int (length (filter is_revise calls)) \<and>
     r_round (rl_history res ! 0) = 0 \<and>
     (\<forall>i. Suc i < length (rl_history res) \<longrightarrow>
          r_round (rl_history res ! Suc i) = r_round (rl_history res ! i) + 1)"
proof -
  obtain ev w0 where e: "eval_fn answer ctx q mn w = (ev, w0)"
    by (cases "eval_fn answer ctx q mn w")
  define st0 where "st0 = \<lparr>ls_current = answer, ls_ev = ev,
     ls_history = [\<lparr>r_round = 0, r_answer = answer, r_score = ev_score ev,
                    r_feedback = ev_feedback ev\<rparr>],
     ls_rounds_done = 0, ls_calls = [EvalCall answer], ls_world = w0\<rparr>"
  define st where "st = revision_while eval_fn llm ctx q mn max_rounds st0"
  have "loop_inv st0"
    by (simp add: loop_inv_def st0_def)
  moreover have "ls_rounds_done st0 \<le> max_rounds"
    using assms by (simp add: st0_def)
  ultimately have inv: "loop_inv st" and le: "ls_rounds_done st \<le> max_rounds"
    unfolding st_def using revision_while_inv [of st0 max_rounds max_rounds] by simp_all
  from inv have ne: "ls_history st \<noteq> []"
    by (auto simp: loop_inv_def)
  have run: "run_revision_loop eval_fn llm answer ctx q mn max_rounds w =
      (Inr \<lparr>rl_final_answer = ls_current st, rl_rounds = ls_rounds_done st,
             rl_history = ls_history st,
             rl_got_better = (r_score (last (ls_history st)) > r_score (ls_history st ! 0)),
             rl_score_before = r_score (ls_history st ! 0),
             rl_score_after = r_score (last (ls_history st))\<rparr>,
       ls_calls st, ls_world st)"
    by (simp add: run_revision_loop_def e Let_def st_def [symmetric] st0_def [symmetric]
        py_index_first [OF ne] py_index_last [OF ne])
  from inv le have
    "int (length (filter is_eval (ls_calls st))) \<le> max_rounds + 1"
    "int (length (filter is_revise (ls_calls st))) \<le> max_rounds"
    "length (ls_history st) = length (filter is_eval (ls_calls st))"
    "ls_rounds_done st = int (length (filter is_revise (ls_calls st)))"
    "r_round (ls_history st ! 0) = 0"
    "\<forall>i. Suc i < length (ls_history st) \<longrightarrow>
          r_round (ls_history st ! Suc i) = r_round (ls_history st ! i) + 1"
    using ne by (auto simp: loop_inv_def)
  with run show ?thesis
    by simp
qed

lemma revision_while_stop:
  assumes "\<not> (ev_needs_revision (ls_ev st) \<and> ls_rounds_done st < max_rounds)"
  shows "revision_while eval_fn llm ctx q mn max_rounds st = st"
  using assms by (subst revision_while.simps) auto

lemma revision_while_go:
  assumes "ev_needs_revision (ls_ev st)" and "ls_rounds_done st < max_rounds"
  shows "revision_while eval_fn llm ctx q mn max_rounds st =
         revision_while eval_fn llm ctx q mn max_rounds (revision_step eval_fn llm ctx q mn st)"
  using assms by (subst revision_while.simps) auto

text \<open>A negative cap still gives the first evaluation, and nothing else.\<close>

lemma revision_loop_negative_cap:
  assumes "max_rounds < 0"
  shows "fst (snd (run_revision_loop eval_fn llm answer ctx q mn max_rounds w)) = [EvalCall answer]"
  using assms
  by (simp add: run_revision_loop_def Let_def revision_while_stop split: prod.split)

text \<open>
  An evaluation function that always asks for a revision, with the default cap of 2:
  three evaluations, two revisions, rounds 0, 1, 2, and a normal result.
\<close>

theorem revision_loop_bounds_witness:
  "(0::int) \<le> 2 \<and>
   run_revision_loop
     (\<lambda>a c q m w. (\<lparr>ev_score = 3, ev_feedback = ''more'', ev_notes = [],
                     ev_llm_feedback = [], ev_needs_revision = True\<rparr>, Suc w))
     (\<lambda>p w. ('' better '', Suc w)) ''bad'' ''ctx'' ''what?'' LLM_NAME MAX_ROUNDS (0::nat)
   = (Inr \<lparr>rl_final_answer = ''better'', rl_rounds = 2,
           rl_history =
             [\<lparr>r_round = 0, r_answer = ''bad'', r_score = 3, r_feedback = ''more''\<rparr>,
              \<lparr>r_round = 1, r_answer = ''better'', r_score = 3, r_feedback = ''more''\<rparr>,
              \<lparr>r_round = 2, r_answer = ''better'', r_score = 3, r_feedback = ''more''\<rparr>],
           rl_got_better = False, rl_score_before = 3, rl_score_after = 3\<rparr>,
      [EvalCall ''bad'', ReviseCall ''bad'' ''more'', EvalCall ''better'',
       ReviseCall ''better'' ''more'', EvalCall ''better''],
      5)"
proof -
  have cap: "(0::int) \<le> MAX_ROUNDS"
    by (simp add: MAX_ROUNDS_def)
  have run: "run_revision_loop
     (\<lambda>a c q m w. (\<lparr>ev_score = 3, ev_feedback = ''more'', ev_notes = [],
                     ev_llm_feedback = [], ev_needs_revision = True\<rparr>, Suc w))
     (\<lambda>p w. ('' better '', Suc w)) ''bad'' ''ctx'' ''what?'' LLM_NAME MAX_ROUNDS (0::nat)
   = (Inr \<lparr>rl_final_answer = ''better'', rl_rounds = 2,
           rl_history =
             [\<lparr>r_round = 0, r_answer = ''bad'', r_score = 3, r_feedback = ''more''\<rparr>,
              \<lparr>r_round = 1, r_answer = ''better'', r_score = 3, r_feedback = ''more''\<rparr>,
              \<lparr>r_round = 2, r_answer = ''better'', r_score = 3, r_feedback = ''more''\<rparr>],
           rl_got_better = False, rl_score_before = 3, rl_score_after = 3\<rparr>,
      [EvalCall ''bad'', ReviseCall ''bad'' ''more'', EvalCall ''better'',
       ReviseCall ''better'' ''more'', EvalCall ''better''],
      5)"
    by (simp add: run_revision_loop_def revision_while_go revision_while_stop
        revision_step_def revise_def strip_def is_space_def py_index_def Let_def
        MAX_ROUNDS_def)
  from revision_loop_bounds [OF cap, of
     "\<lambda>a c q m w. (\<lparr>ev_score = 3, ev_feedback = ''more'', ev_notes = [],
                     ev_llm_feedback = [], ev_needs_revision = True\<rparr>, Suc w)"
     "\<lambda>p w. ('' better '', Suc w)" "''bad''" "''ctx''" "''what?''" LLM_NAME "0::nat"]
    run
  show ?thesis by simp
qed

section \<open>Properties of planner_agent.py\<close>

lemma contains_iff: "contains sub s \<longleftrightarrow> (\<exists>pre post. s = pre @ sub @ post)"
proof (induction s)
  case Nil
  then show ?case by auto
next
  case (Cons c cs)
  show ?case
  proof
    assume "contains sub (c # cs)"
    then consider "prefix sub (c # cs)" | "contains sub cs" by auto
    then show "\<exists>pre post. c # cs = pre @ sub @ post"
    proof cases
      case 1
      then obtain post where "c # cs = sub @ post" by (auto simp: prefix_def)
      then have "c # cs = [] @ sub @ post" by simp
      then show ?thesis by blast
    next
      case 2
      with Cons.IH obtain pre post where "cs = pre @ sub @ post" by blast
      then have "c # cs = (c # pre) @ sub @ post" by simp
      then show ?thesis by blast
    qed
  next
    assume "\<exists>pre post. c # cs = pre @ sub @ post"
    then obtain pre post where eq: "c # cs = pre @ sub @ post" by blast
    show "contains sub (c # cs)"
    proof (cases pre)
      case Nil
      with eq have "prefix sub (c # cs)" by (simp add: prefix_def)
      then show ?thesis by simp
    next
      case (Cons x pre')
      with eq have "cs = pre' @ sub @ post" by simp
      with Cons.IH have "contains sub cs" by blast
      then show ?thesis by simp
    qed
  qed
qed

lemma dropWhile_keeps:
  assumes "sub \<noteq> []" and "\<not> P (hd sub)"
  shows "\<exists>pre'. dropWhile P (pre @ sub @ post) = pre' @ sub @ post"
proof (cases "\<forall>x\<in>set pre. P x")
  case True
  from assms obtain x xs where "sub = x # xs" and "\<not> P x"
    by (cases sub) auto
  with True have "dropWhile P (pre @ sub @ post) = [] @ sub @ post"
    by (simp add: dropWhile_append)
  then show ?thesis by blast
next
  case False
  then have "dropWhile P (pre @ sub @ post) = dropWhile P pre @ sub @ post"
    by (auto simp: dropWhile_append)
  then show ?thesis by blast
qed

lemma strip_keeps:
  assumes "sub \<noteq> []" and "\<not> is_space (hd sub)" and "\<not> is_space (last sub)"
  shows "\<exists>pre' post'. strip (pre @ sub @ post) = pre' @ sub @ post'"
proof -
  from dropWhile_keeps [where P = is_space and sub = sub, OF assms(1,2)] obtain pre'
    where l: "dropWhile is_space (pre @ sub @ post) = pre' @ sub @ post" by blast
  have "rev sub \<noteq> []" and "\<not> is_space (hd (rev sub))"
    using assms by (simp_all add: hd_rev)
  from dropWhile_keeps [where P = is_space and sub = "rev sub", OF this] obtain post'
    where r: "dropWhile is_space (rev post @ rev sub @ rev pre') = post' @ rev sub @ rev pre'"
    by blast
  have "strip (pre @ sub @ post) = pre' @ sub @ rev post'"
    by (simp add: strip_def l r)
  then show ?thesis by blast
qed

lemma strip_part: "\<exists>a b. s = a @ strip s @ b"
proof -
  define t where "t = dropWhile is_space s"
  have "s = takeWhile is_space s @ t"
    by (simp add: t_def)
  moreover have "rev t = takeWhile is_space (rev t) @ dropWhile is_space (rev t)"
    by simp
  then have "t = strip s @ rev (takeWhile is_space (rev t))"
    by (metis rev_append rev_rev_ident strip_def t_def)
  ultimately have "s = takeWhile is_space s @ strip s @ rev (takeWhile is_space (rev t))"
    by simp
  then show ?thesis by blast
qed

lemma map_part:
  assumes "map f xs = u @ v @ w"
  shows "\<exists>x y z. xs = x @ y @ z \<and> map f y = v"
proof -
  from assms have "\<exists>us vs. xs = us @ vs \<and> u = map f us \<and> v @ w = map f vs"
    by (simp only: map_eq_append_conv)
  then obtain x r where xs: "xs = x @ r" and r: "v @ w = map f r"
    by blast
  from r have "map f r = v @ w"
    by simp
  then have "\<exists>us vs. r = us @ vs \<and> v = map f us \<and> w = map f vs"
    by (simp only: map_eq_append_conv)
  then obtain y z where "r = y @ z" and "v = map f y"
    by blast
  with xs have "xs = x @ y @ z \<and> map f y = v"
    by simp
  then show ?thesis
    by blast
qed

lemma complex_phrases_are:
  "set complex_phrases =
     {''compare'', ''difference'', ''advantages and disadvantages'', ''limitations'',
      ''pros and cons'', ''contrast''}"
  by (simp add: complex_phrases_def)

lemma complex_phrases_shape:
  "\<forall>p\<in>set complex_phrases. p \<noteq> [] \<and> \<not> is_space (hd p) \<and> \<not> is_space (last p) \<and> lower p = p"
  by (simp add: complex_phrases_def is_space_def lower_def lower_char_def is_upper_def)

lemma contains_ci_stripped:
  assumes "p \<in> set complex_phrases"
  shows "contains p (strip (lower query)) \<longleftrightarrow> contains_ci p query"
proof
  assume "contains p (strip (lower query))"
  then obtain u v where "strip (lower query) = u @ p @ v"
    by (auto simp: contains_iff)
  moreover obtain a b where "lower query = a @ strip (lower query) @ b"
    using strip_part by blast
  ultimately have "map lower_char query = (a @ u) @ p @ (v @ b)"
    by (simp add: lower_def)
  from map_part [OF this] obtain x y z where xyz: "query = x @ y @ z" "map lower_char y = p"
    by blast
  have "lower p = p"
    using assms complex_phrases_shape by blast
  with xyz show "contains_ci p query"
    unfolding contains_ci_def lower_def
    by (intro exI [of _ x] exI [of _ y] exI [of _ z]) simp
next
  assume "contains_ci p query"
  then obtain pre mid post where q: "query = pre @ mid @ post" and m: "lower mid = lower p"
    unfolding contains_ci_def by blast
  from assms complex_phrases_shape
  have shape: "p \<noteq> []" "\<not> is_space (hd p)" "\<not> is_space (last p)" "lower p = p"
    by blast+
  from q m shape(4) have "lower query = lower pre @ p @ lower post"
    by (simp add: lower_def)
  with strip_keeps [OF shape(1-3), of "lower pre" "lower post"]
  show "contains p (strip (lower query))"
    by (simp add: contains_iff)
qed

text \<open>
  C3, amended: for every query that contains, up to the case of letters, one of the six
  phrases of \<open>complex_phrases\<close> (compare, difference, advantages and disadvantages,
  limitations, pros and cons, contrast), \<open>check_complexity\<close> returns \<open>is_complex = True\<close>,
  and its reason names the first phrase of that list, in the list's order, that the query
  contains.
\<close>

theorem complex_phrase_detected:
  assumes "phrase \<in> set complex_phrases" and "contains_ci phrase query"
  shows "\<exists>first. find (\<lambda>p. contains_ci p query) complex_phrases = Some first \<and>
           check_complexity query =
             \<lparr>c_is_complex = True,
              c_reason = ''Found '' @ [CHR 0x27] @ first @ [CHR 0x27] @
                         '' - query likely needs multiple retrieval steps''\<rparr>"
proof -
  have same: "find (\<lambda>p. contains p (strip (lower query))) complex_phrases
              = find (\<lambda>p. contains_ci p query) complex_phrases"
    by (rule find_cong) (simp_all add: contains_ci_stripped)
  from assms have "find (\<lambda>p. contains_ci p query) complex_phrases \<noteq> None"
    by (auto simp: find_None_iff)
  then obtain first where f: "find (\<lambda>p. contains_ci p query) complex_phrases = Some first"
    by blast
  then show ?thesis
    by (simp add: check_complexity_def same Let_def)
qed

lemma lower_char_space: "is_space c \<Longrightarrow> lower_char c = c"
  unfolding is_space_def lower_char_def is_upper_def Let_def by (simp; linarith)

lemma strip_blank:
  assumes "\<forall>c\<in>set query. is_space c"
  shows "strip (lower query) = []"
proof -
  from assms have "lower query = query"
    unfolding lower_def by (induction query) (simp_all add: lower_char_space)
  moreover from assms have "dropWhile is_space query = []"
    by simp
  ultimately show ?thesis
    unfolding strip_def by (simp only: rev.simps dropWhile.simps)
qed

lemma check_complexity_empty:
  assumes "strip (lower query) = []"
  shows "check_complexity query = \<lparr>c_is_complex = False, c_reason = ''Simple single-topic query''\<rparr>"
proof -
  have "find (\<lambda>phrase. contains phrase []) complex_phrases = None"
    by (simp add: complex_phrases_def)
  moreover have "\<not> rx_search and_rx []"
    by code_simp
  ultimately show ?thesis
    by (simp add: check_complexity_def assms)
qed

lemma match_sections_empty: "match_sections SECTION_MAP [] {} = []"
  by (simp add: SECTION_MAP_def)

text \<open>A query that is not complex and names no section is passed through as it is.\<close>

lemma plan_query_passthrough:
  assumes "\<not> c_is_complex (check_complexity query)"
    and "match_sections SECTION_MAP (strip (lower query)) {} = []"
  shows "p_subtasks (plan_query query) = [''Subtask 1: '' @ query] \<and>
         \<not> p_is_compound (plan_query query)"
  using assms by (simp add: plan_query_def)

text \<open>
  C7: for every query that is empty or made of white space only, \<open>plan_query\<close> returns a
  plan that is not complex and not compound, with exactly one subtask, \<open>Subtask 1: \<close>
  followed by the query as given.
\<close>

theorem plan_query_blank:
  assumes "\<forall>c\<in>set query. is_space c"
  shows "plan_query query =
           \<lparr>p_original_query = query,
            p_complexity = \<lparr>c_is_complex = False, c_reason = ''Simple single-topic query''\<rparr>,
            p_is_compound = False,
            p_subtasks = [''Subtask 1: '' @ query],
            p_reasoning = ''Simple query, no decomposition needed.''\<rparr>"
proof -
  note blank = strip_blank [OF assms]
  show ?thesis
    by (simp add: plan_query_def blank check_complexity_empty [OF blank] match_sections_empty)
qed

text \<open>The empty query, and a query of a blank, a tab and a line feed.\<close>

theorem plan_query_blank_witness:
  "p_subtasks (plan_query []) = [''Subtask 1: ''] \<and>
   p_subtasks (plan_query [CHR '' '', CHR 0x09, CHR 0x0A]) = [''Subtask 1: '' @ [CHR '' '', CHR 0x09, CHR 0x0A]]"
proof -
  have e: "\<forall>c\<in>set []. is_space c"
    by simp
  have b: "\<forall>c\<in>set [CHR '' '', CHR 0x09, CHR 0x0A]. is_space c"
    by (simp add: is_space_def)
  from plan_query_blank [OF e] plan_query_blank [OF b] show ?thesis
    by simp
qed

text \<open>
  A query with two of the phrases: the reason names \<open>compare\<close>, which comes first in the
  list, not \<open>limitations\<close>, which comes first in the query.
\<close>

theorem complex_phrase_witness:
  "''limitations'' \<in> set complex_phrases \<and>
   contains_ci ''limitations'' ''What are the LIMITATIONS, and how do methods compare?'' \<and>
   check_complexity ''What are the LIMITATIONS, and how do methods compare?'' =
     \<lparr>c_is_complex = True,
      c_reason = ''Found 'compare' - query likely needs multiple retrieval steps''\<rparr>"
proof -
  have m: "''limitations'' \<in> set complex_phrases"
    by (simp add: complex_phrases_def)
  have c: "contains_ci ''limitations'' ''What are the LIMITATIONS, and how do methods compare?''"
    unfolding contains_ci_def
    by (intro exI [of _ "''What are the ''"] exI [of _ "''LIMITATIONS''"]
        exI [of _ "'', and how do methods compare?''"])
      (simp add: lower_def lower_char_def is_upper_def)
  have v: "find (\<lambda>p. contains p (strip (lower ''What are the LIMITATIONS, and how do methods compare?''))) complex_phrases = Some ''compare''"
    by code_simp
  from complex_phrase_detected [OF m c] m c v show ?thesis
    by (auto simp: contains_ci_stripped cong: find_cong)
qed

text \<open>
  C5: \<open>plan_query\<close> on \<open>Explain the methodology and limitations.\<close> is complex and
  compound, with three subtasks in order: the methodology part, the limitations part
  and the synthesis step.
\<close>

theorem plan_query_scenario:
  "plan_query ''Explain the methodology and limitations.'' =
     \<lparr>p_original_query = ''Explain the methodology and limitations.'',
      p_complexity =
        \<lparr>c_is_complex = True,
         c_reason = ''Found 'limitations' - query likely needs multiple retrieval steps''\<rparr>,
      p_is_compound = True,
      p_subtasks = [''Subtask 1: Explain the methodology'',
                    ''Subtask 2: Limitations.'',
                    ''Subtask 3: Combine and summarize findings.''],
      p_reasoning = ''Split into 2 parts + synthesis step.''\<rparr>"
  by code_simp

text \<open>
  C3, as stated, fails: \<open>versus\<close> is not one of the phrases \<open>check_complexity\<close> scans for,
  and a query that has it, and no other signal, is not complex.
\<close>

theorem versus_counterexample:
  "contains_ci ''versus'' ''RNN versus CNN'' \<and>
   \<not> c_is_complex (check_complexity ''RNN versus CNN'')"
proof -
  have "''RNN versus CNN'' = ''RNN '' @ ''versus'' @ '' CNN''" by simp
  then have "contains_ci ''versus'' ''RNN versus CNN''"
    unfolding contains_ci_def by blast
  moreover have "\<not> c_is_complex (check_complexity ''RNN versus CNN'')"
    by code_simp
  ultimately show ?thesis by simp
qed

section \<open>Properties of chunking.py\<close>

lemma chunk_loop_terminates:
  assumes "overlap < chunk_size"
  shows "\<exists>r. chunk_loop text chunk_size overlap pos idx result = Some r"
proof (induction "nat (int (length text) - pos)" arbitrary: pos idx result rule: less_induct)
  case less
  show ?case
  proof (cases "pos < int (length text)")
    case True
    with assms have "nat (int (length text) - (pos + (chunk_size - overlap)))
                     < nat (int (length text) - pos)"
      by linarith
    from less [OF this] True show ?thesis
      by (subst chunk_loop.simps) simp
  next
    case False
    then show ?thesis
      by (subst chunk_loop.simps) simp
  qed
qed

lemma chunk_loop_no_result:
  assumes "chunk_loop text chunk_size overlap pos idx result = Some y"
  shows "\<not> (chunk_size \<le> overlap \<and> pos < int (length text))"
proof (rule chunk_loop.raw_induct
    [where P = "\<lambda>tx cs ov p i r y. \<not> (cs \<le> ov \<and> p < int (length tx))", OF _ assms],
    goal_cases)
  case (1 self tx cs ov p i r y)
  show ?case
  proof
    assume a: "cs \<le> ov \<and> p < int (length tx)"
    with 1(2) have
      "self tx cs ov (p + (cs - ov)) (fst (chunk_step tx cs p i r))
         (snd (chunk_step tx cs p i r)) = Some y"
      by simp
    from 1(1) [OF this] a show False
      by simp
  qed
qed

lemma chunk_loop_diverges:
  assumes "chunk_size \<le> overlap" and "pos < int (length text)"
  shows "chunk_loop text chunk_size overlap pos idx result = None"
proof (cases "chunk_loop text chunk_size overlap pos idx result")
  case None
  then show ?thesis .
next
  case (Some y)
  from chunk_loop_no_result [OF this] assms show ?thesis
    by simp
qed

lemma strip_nonempty: "strip text \<noteq> [] \<Longrightarrow> text \<noteq> []"
  by (auto simp: strip_def)

text \<open>
  C10, amended: for every text and every pair of parameters with
  \<open>0 \<le> overlap < chunk_size\<close>, \<open>chunk_text\<close> returns, the position growing by
  \<open>chunk_size - overlap \<ge> 1\<close> in each pass; and when \<open>overlap \<ge> chunk_size\<close> and the text
  has a character that is not white space, the loop never ends.
\<close>

theorem chunk_text_termination:
  "(0 \<le> overlap \<and> overlap < chunk_size \<longrightarrow>
      (\<exists>r. chunk_text text chunk_size overlap = Some r)) \<and>
   (chunk_size \<le> overlap \<and> strip text \<noteq> [] \<longrightarrow>
      chunk_text text chunk_size overlap = None)"
proof (intro conjI impI)
  assume "0 \<le> overlap \<and> overlap < chunk_size"
  then show "\<exists>r. chunk_text text chunk_size overlap = Some r"
    by (simp add: chunk_text_def chunk_loop_terminates)
next
  assume a: "chunk_size \<le> overlap \<and> strip text \<noteq> []"
  then have "text \<noteq> []"
    by (simp add: strip_nonempty)
  then have "0 < int (length text)"
    by simp
  with a show "chunk_text text chunk_size overlap = None"
    by (simp add: chunk_text_def chunk_loop_diverges strip_nonempty)
qed

text \<open>
  Exactly when the loop runs for ever: the step \<open>chunk_size - overlap\<close> is not positive
  and the text has a character that is not white space. A negative \<open>overlap\<close> does no
  harm.
\<close>

lemma chunk_text_diverges_iff:
  "chunk_text text chunk_size overlap = None \<longleftrightarrow>
     chunk_size \<le> overlap \<and> strip text \<noteq> []"
proof (cases "overlap < chunk_size")
  case True
  then obtain r where "chunk_loop text chunk_size overlap 0 0 [] = Some r"
    using chunk_loop_terminates by blast
  with True show ?thesis
    by (simp add: chunk_text_def)
next
  case False
  show ?thesis
  proof (cases "strip text = []")
    case True
    then show ?thesis
      by (simp add: chunk_text_def)
  next
    case nonblank: False
    then have "0 < int (length text)"
      using strip_nonempty by fastforce
    with False nonblank show ?thesis
      by (simp add: chunk_text_def chunk_loop_diverges strip_nonempty)
  qed
qed

text \<open>
  C10, as stated, fails: a text of one blank is not empty, and with
  \<open>overlap \<ge> chunk_size\<close> the function still returns, since the guard before the loop
  sends every text of white space to the empty list.
\<close>

theorem chunk_text_counterexample:
  "'' '' \<noteq> [] \<and> (1::int) \<ge> 1 \<and> chunk_text '' '' 1 1 = Some []"
  by (simp add: chunk_text_def strip_def is_space_def)

declare chunk_loop.simps [code]

text \<open>
  A run that ends, with its three chunks, and a run that does not: \<open>overlap = chunk_size\<close>
  on a text of two letters.
\<close>

theorem chunk_text_termination_witness:
  "chunk_text ''Hello world. This is a test. Another one here'' 20 5 =
     Some [\<lparr>ch_text = ''Hello world.'', ch_chunk_id = 0, ch_start = 0, ch_end = 12\<rparr>,
           \<lparr>ch_text = ''is is a test.'', ch_chunk_id = 1, ch_start = 15, ch_end = 28\<rparr>,
           \<lparr>ch_text = ''nother one here'', ch_chunk_id = 2, ch_start = 30, ch_end = 50\<rparr>] \<and>
   chunk_text ''ab'' 5 5 = None"
proof -
  have run: "chunk_text ''Hello world. This is a test. Another one here'' 20 5 =
     Some [\<lparr>ch_text = ''Hello world.'', ch_chunk_id = 0, ch_start = 0, ch_end = 12\<rparr>,
           \<lparr>ch_text = ''is is a test.'', ch_chunk_id = 1, ch_start = 15, ch_end = 28\<rparr>,
           \<lparr>ch_text = ''nother one here'', ch_chunk_id = 2, ch_start = 30, ch_end = 50\<rparr>]"
    by code_simp
  have letters: "strip ''ab'' \<noteq> []"
    by (simp add: strip_def is_space_def)
  from chunk_text_termination [of 5 20 "''Hello world. This is a test. Another one here''"]
       chunk_text_termination [of 5 5 "''ab''"]
       run letters
  show ?thesis
    by simp
qed

end
